theory Spec2Isabelle
  imports Main
begin

section \<open>Strings as the script uses them\<close>

text \<open>
  Python strings are modelled as \<open>string\<close>; a \<open>char\<close> stands for a code point below 256.
  \<open>isspace\<close> is Python's \<^verbatim>\<open>str.isspace\<close> on that range (also what \<^verbatim>\<open>\s\<close> matches),
  \<open>strip\<close> is \<^verbatim>\<open>str.strip()\<close>, \<open>lower\<close> is \<^verbatim>\<open>str.lower()\<close>, \<open>join\<close> is
  \<^verbatim>\<open>sep.join(xs)\<close> and \<open>str_nat\<close> is \<^verbatim>\<open>str(n)\<close> for a non-negative integer.
\<close>

type_synonym bytes = string

definition isspace :: "char \<Rightarrow> bool" where
  "isspace c =
     (let n = (of_char c :: nat)
      in (9 \<le> n \<and> n \<le> 13) \<or> (28 \<le> n \<and> n \<le> 32) \<or> n = 133 \<or> n = 160)"

definition strip :: "string \<Rightarrow> string" where
  "strip s = rev (dropWhile isspace (rev (dropWhile isspace s)))"

definition lower_char :: "char \<Rightarrow> char" where
  "lower_char c =
     (let n = (of_char c :: nat)
      in if (65 \<le> n \<and> n \<le> 90) \<or> (192 \<le> n \<and> n \<le> 222 \<and> n \<noteq> 215)
         then char_of (n + 32) else c)"

definition lower :: "string \<Rightarrow> string" where
  "lower s = map lower_char s"

fun join :: "string \<Rightarrow> string list \<Rightarrow> string" where
  "join sep [] = []"
| "join sep [x] = x"
| "join sep (x # y # ys) = x @ sep @ join sep (y # ys)"

definition digit_char :: "nat \<Rightarrow> char" where
  "digit_char d = char_of (48 + d)"

fun str_nat :: "nat \<Rightarrow> string" where
  "str_nat n = (if n < 10 then [digit_char n] else str_nat (n div 10) @ [digit_char (n mod 10)])"

declare str_nat.simps [simp del]

definition startswith :: "string \<Rightarrow> string \<Rightarrow> bool" where
  "startswith s p = (take (length p) s = p)"

fun contains :: "string \<Rightarrow> string \<Rightarrow> bool" where
  "contains [] p = (p = [])"
| "contains (c # cs) p = (startswith (c # cs) p \<or> contains cs p)"

section \<open>The document: relationships, cells, tables\<close>

text \<open>
  A relationship of the document part is external (a hyperlink target kept as text) or
  internal (a target part with a content type and a blob). Reading \<^verbatim>\<open>target_part\<close> of an
  external relationship raises in the document library; \<open>part_content_type\<close> is \<open>None\<close> for a
  target part without the attribute that \<^verbatim>\<open>hasattr(..., "content_type")\<close> tests.
\<close>

record part =
  part_content_type :: "string option"
  part_blob :: bytes

datatype relationship =
    External string
  | Internal string part

fun is_external :: "relationship \<Rightarrow> bool" where
  "is_external (External t) = True"
| "is_external (Internal t p) = False"

fun target_ref :: "relationship \<Rightarrow> string" where
  "target_ref (External t) = t"
| "target_ref (Internal t p) = t"

text \<open>
  A cell carries the text of its paragraphs, the \<^verbatim>\<open>r:embed\<close> attributes of the pictures
  drawn in it (inline or anchored), the \<^verbatim>\<open>r:id\<close> attributes of its \<^verbatim>\<open>w:hyperlink\<close>
  elements and the texts of its \<^verbatim>\<open>w:instrText\<close> elements (all in document order, the last
  two as the XPath queries yield them), and the relationships of the part it lives in, in
  the order the collection iterates them. All cells of a document share the relationships
  of the document part. The script never reads the pictures of a cell: \<open>image_rids\<close> is
  part of the document, not of what the code looks at.
\<close>

record cell =
  paragraphs :: "string list"
  image_rids :: "string list"
  hyperlink_rids :: "string list"
  instr_texts :: "string option list"
  part_rels :: "(string \<times> relationship) list"

record table =
  n_columns :: nat
  table_rows :: "cell list list"

type_synonym document = "table list"

subsection \<open>\<^verbatim>\<open>cell_text\<close>\<close>

definition newline :: string where
  "newline = [CHR 0x0A]"

definition cell_text :: "cell \<Rightarrow> string" where
  "cell_text c = strip (join newline (map strip (paragraphs c)))"

subsection \<open>\<^verbatim>\<open>first_hyperlink_url\<close>\<close>

text \<open>
  \<open>re_match_here s\<close> matches \<^verbatim>\<open>HYPERLINK\s+"([^"]+)"\<close> at the start of \<open>s\<close> and yields
  group 1; \<open>re_search\<close> is \<^verbatim>\<open>re.search\<close>: the leftmost position where it matches.
\<close>

definition quote_char :: char where
  "quote_char = CHR 0x22"

definition re_match_here :: "string \<Rightarrow> string option" where
  "re_match_here s =
     (if startswith s ''HYPERLINK'' then
        (let r = drop 9 s; ws = takeWhile isspace r; r' = dropWhile isspace r
         in if ws = [] then None
            else (case r' of
                    [] \<Rightarrow> None
                  | q # r'' \<Rightarrow>
                      if q = quote_char then
                        (let u = takeWhile (\<lambda>c. c \<noteq> quote_char) r'';
                             rest = dropWhile (\<lambda>c. c \<noteq> quote_char) r''
                         in if u \<noteq> [] \<and> rest \<noteq> [] then Some u else None)
                      else None))
      else None)"

fun re_search :: "string \<Rightarrow> string option" where
  "re_search [] = re_match_here []"
| "re_search (c # cs) =
     (case re_match_here (c # cs) of Some u \<Rightarrow> Some u | None \<Rightarrow> re_search cs)"

fun direct_hyperlink :: "(string \<times> relationship) list \<Rightarrow> string list \<Rightarrow> string option" where
  "direct_hyperlink rels [] = None"
| "direct_hyperlink rels (rId # hs) =
     (if rId \<noteq> [] then
        (case map_of rels rId of
           Some rel \<Rightarrow> if is_external rel then Some (target_ref rel) else direct_hyperlink rels hs
         | None \<Rightarrow> direct_hyperlink rels hs)
      else direct_hyperlink rels hs)"

fun field_code_hyperlink :: "string option list \<Rightarrow> string option" where
  "field_code_hyperlink [] = None"
| "field_code_hyperlink (instr # is) =
     (let t = (case instr of None \<Rightarrow> [] | Some x \<Rightarrow> x)
      in if contains t ''HYPERLINK'' then
           (case re_search t of Some u \<Rightarrow> Some u | None \<Rightarrow> field_code_hyperlink is)
         else field_code_hyperlink is)"

definition first_hyperlink_url :: "cell \<Rightarrow> string option" where
  "first_hyperlink_url c =
     (case direct_hyperlink (part_rels c) (hyperlink_rids c) of
        Some u \<Rightarrow> Some u
      | None \<Rightarrow> field_code_hyperlink (instr_texts c))"

subsection \<open>\<^verbatim>\<open>first_embedded_image_bytes\<close>\<close>

text \<open>
  The loop runs over every relationship of the part. An external relationship met before
  an image makes \<^verbatim>\<open>target_part\<close> raise; the bare \<^verbatim>\<open>except\<close> swallows it and the function
  returns \<open>None\<close>.
\<close>

fun first_image_rel :: "(string \<times> relationship) list \<Rightarrow> (bytes \<times> string) option" where
  "first_image_rel [] = None"
| "first_image_rel ((rId, External t) # rs) = None"
| "first_image_rel ((rId, Internal t p) # rs) =
     (case part_content_type p of
        None \<Rightarrow> first_image_rel rs
      | Some content_type \<Rightarrow>
          if startswith content_type ''image/'' then Some (part_blob p, content_type)
          else first_image_rel rs)"

definition first_embedded_image_bytes :: "cell \<Rightarrow> (bytes \<times> string) option" where
  "first_embedded_image_bytes c = first_image_rel (part_rels c)"

section \<open>The storage service\<close>

text \<open>
  The Drive client is an external collaborator. It is modelled as a state that is passed
  through every call: the files it holds, a counter from which it names the next file it
  creates, the outcomes of the coming API calls (\<open>None\<close>: the call succeeds, \<open>Some e\<close>:
  it raises \<open>e\<close>; beyond the end of the list every call succeeds), and a trace of the calls
  and sleeps performed.
\<close>

datatype error =
    ValueError string
  | IndexError
  | HttpError nat
  | TransportError

datatype event =
    FilesList string
  | FilesCreate string
  | PermissionsCreate string
  | Sleep nat

record drive_file =
  file_id :: string
  file_name :: string
  file_mime :: string
  file_parents :: "string list"
  file_trashed :: bool
  file_public :: bool
  file_data :: bytes

record drive =
  drive_files :: "drive_file list"
  drive_next :: nat
  drive_faults :: "error option list"
  drive_trace :: "event list"

type_synonym 'a result = "error + 'a"

definition execute :: "event \<Rightarrow> drive \<Rightarrow> error option \<times> drive" where
  "execute ev d =
     (case drive_faults d of
        [] \<Rightarrow> (None, d\<lparr>drive_trace := drive_trace d @ [ev]\<rparr>)
      | f # fs \<Rightarrow> (f, d\<lparr>drive_faults := fs, drive_trace := drive_trace d @ [ev]\<rparr>))"

definition folder_mime :: string where
  "folder_mime = ''application/vnd.google-apps.folder''"

text \<open>
  \<open>safe_name\<close> is \<^verbatim>\<open>name.replace("'", "\\'")\<close> and \<open>folder_query\<close> the query string
  built from it. The service answers a query with the files that are folders, are not
  trashed and whose name gives that very query string, at most \<^verbatim>\<open>pageSize\<close> of them in
  the order it stores them.
\<close>

fun safe_name :: "string \<Rightarrow> string" where
  "safe_name [] = []"
| "safe_name (c # cs) =
     (if c = CHR 0x27 then CHR 0x5C # CHR 0x27 # safe_name cs else c # safe_name cs)"

definition folder_query :: "string \<Rightarrow> string" where
  "folder_query name =
     ''name = '' @ [CHR 0x27] @ safe_name name @ [CHR 0x27] @ '' and '' @
     ''mimeType = '' @ [CHR 0x27] @ folder_mime @ [CHR 0x27] @ '' and '' @
     ''trashed = false''"

definition query_matches :: "string \<Rightarrow> drive_file \<Rightarrow> bool" where
  "query_matches q f =
     (q = folder_query (file_name f) \<and> file_mime f = folder_mime \<and> \<not> file_trashed f)"

definition files_list :: "drive \<Rightarrow> string \<Rightarrow> nat \<Rightarrow> drive_file list result \<times> drive" where
  "files_list d q page_size =
     (case execute (FilesList q) d of
        (Some e, d') \<Rightarrow> (Inl e, d')
      | (None, d') \<Rightarrow> (Inr (take page_size (filter (query_matches q) (drive_files d'))), d'))"

definition files_create ::
  "drive \<Rightarrow> string \<Rightarrow> string \<Rightarrow> string list \<Rightarrow> bytes \<Rightarrow> string result \<times> drive" where
  "files_create d name mime parents data =
     (case execute (FilesCreate name) d of
        (Some e, d') \<Rightarrow> (Inl e, d')
      | (None, d') \<Rightarrow>
          (let fid = str_nat (drive_next d');
               f = \<lparr>file_id = fid, file_name = name, file_mime = mime, file_parents = parents,
                    file_trashed = False, file_public = False, file_data = data\<rparr>
           in (Inr fid, d'\<lparr>drive_files := drive_files d' @ [f],
                            drive_next := Suc (drive_next d')\<rparr>)))"

definition permissions_create :: "drive \<Rightarrow> string \<Rightarrow> unit result \<times> drive" where
  "permissions_create d fid =
     (case execute (PermissionsCreate fid) d of
        (Some e, d') \<Rightarrow> (Inl e, d')
      | (None, d') \<Rightarrow>
          (Inr (), d'\<lparr>drive_files :=
                         map (\<lambda>f. if file_id f = fid then f\<lparr>file_public := True\<rparr> else f)
                           (drive_files d')\<rparr>))"

definition sleep :: "nat \<Rightarrow> drive \<Rightarrow> drive" where
  "sleep secs d = d\<lparr>drive_trace := drive_trace d @ [Sleep secs]\<rparr>"

subsection \<open>\<^verbatim>\<open>find_or_create_folder\<close>\<close>

definition create_folder :: "drive \<Rightarrow> string \<Rightarrow> string result \<times> drive" where
  "create_folder d name = files_create d name folder_mime [] []"

definition find_or_create_folder :: "drive \<Rightarrow> string \<Rightarrow> string result \<times> drive" where
  "find_or_create_folder d name =
     (case files_list d (folder_query name) 10 of
        (Inl e, d') \<Rightarrow> create_folder d' name
      | (Inr fs, d') \<Rightarrow>
          (case fs of
             [] \<Rightarrow> create_folder d' name
           | f # rest \<Rightarrow> (Inr (file_id f), d')))"

subsection \<open>\<^verbatim>\<open>set_public_anyone_reader\<close>\<close>

definition retry_statuses :: "nat list" where
  "retry_statuses = [403, 429, 500, 503]"

definition set_public_anyone_reader :: "drive \<Rightarrow> string \<Rightarrow> unit result \<times> drive" where
  "set_public_anyone_reader d fid =
     (case permissions_create d fid of
        (Inr u, d') \<Rightarrow> (Inr (), d')
      | (Inl (HttpError status), d') \<Rightarrow>
          if status \<in> set retry_statuses then permissions_create (sleep 2 d') fid
          else (Inl (HttpError status), d')
      | (Inl e, d') \<Rightarrow> (Inl e, d'))"

subsection \<open>\<^verbatim>\<open>upload_image_bytes\<close>\<close>

definition view_prefix :: string where
  "view_prefix = ''https://drive.google.com/uc?export=view&id=''"

definition public_view_url :: "string \<Rightarrow> string" where
  "public_view_url fid = view_prefix @ fid"

definition mime_or_default :: "string option \<Rightarrow> string" where
  "mime_or_default mime =
     (case mime of
        None \<Rightarrow> ''application/octet-stream''
      | Some m \<Rightarrow> if m = [] then ''application/octet-stream'' else m)"

definition upload_image_bytes ::
  "drive \<Rightarrow> string \<Rightarrow> string \<Rightarrow> bytes \<Rightarrow> string option \<Rightarrow> string result \<times> drive" where
  "upload_image_bytes d folder_id name_hint data mime =
     (case files_create d name_hint (mime_or_default mime) [folder_id] data of
        (Inl e, d1) \<Rightarrow> (Inl e, d1)
      | (Inr fid, d1) \<Rightarrow>
          (case set_public_anyone_reader d1 fid of
             (Inl e, d2) \<Rightarrow> (Inl e, d2)
           | (Inr u, d2) \<Rightarrow> (Inr (public_view_url fid), d2)))"

section \<open>The remote fetcher\<close>

text \<open>
  The web is a table from URL to what a request for it meets: nothing usable (a
  connection failure, an invalid URL), or a reply after some delay with a status, a body
  and possibly a \<^verbatim>\<open>Content-Type\<close> header. \<open>requests_get\<close> raises when there is no reply or
  when the reply takes longer than the timeout it is given; \<open>raise_for_status\<close> raises for
  the statuses from 400 to 599, as the HTTP library does.
\<close>

datatype http_reply = Reply nat nat bytes "string option"

type_synonym web = "(string \<times> http_reply) list"

record response =
  status_code :: nat
  content :: bytes
  content_type_header :: "string option"

definition requests_get :: "web \<Rightarrow> string \<Rightarrow> nat \<Rightarrow> response result" where
  "requests_get w url timeout =
     (case map_of w url of
        None \<Rightarrow> Inl TransportError
      | Some (Reply delay status body ctype) \<Rightarrow>
          if timeout < delay then Inl TransportError
          else Inr \<lparr>status_code = status, content = body, content_type_header = ctype\<rparr>)"

definition raise_for_status :: "response \<Rightarrow> unit result" where
  "raise_for_status r =
     (if 400 \<le> status_code r \<and> status_code r < 600 then Inl (HttpError (status_code r))
      else Inr ())"

definition download_url_bytes :: "web \<Rightarrow> string \<Rightarrow> (bytes \<times> string option) option" where
  "download_url_bytes w url =
     (case requests_get w url 20 of
        Inl e \<Rightarrow> None
      | Inr r \<Rightarrow>
          (case raise_for_status r of
             Inl e \<Rightarrow> None
           | Inr u \<Rightarrow> Some (content r, content_type_header r)))"

section \<open>The conversion\<close>

text \<open>
  \<^verbatim>\<open>convert_docx_to_excel_with_drive\<close> is one long function; its blocks are modelled one by
  one and composed at the end, in the order of the source:
  \<^item> \<open>choose_table\<close>: the check for tables and the choice of the table;
  \<^item> \<open>headers_and_data\<close>, with \<open>header_like\<close> and \<open>generic_headers\<close>: the headers and
    the data rows;
  \<^item> \<open>find_photo_idx\<close>: the loop that looks for the photo column;
  \<^item> \<open>row_values\<close>: the body of the loop over the data rows up to the replacement of the
    photo value, with \<open>resolve_photo\<close> for the three numbered steps (\<open>embedded_stage\<close>
    is step 1, \<open>hyperlink_stage\<close> step 2);
  \<^item> \<open>pack_row\<close>: the loop that packs the row dictionary;
  \<^item> \<open>process_rows\<close>: the loop over the data rows, counting from 1.
\<close>

subsection \<open>Choosing the table, the headers and the photo column\<close>

definition choose_table :: "document \<Rightarrow> table result" where
  "choose_table doc =
     (case doc of
        [] \<Rightarrow> Inl (ValueError ''No tables found in the DOCX.'')
      | t0 # ts \<Rightarrow>
          (case find (\<lambda>t. 3 \<le> n_columns t) doc of
             Some t \<Rightarrow> Inr t
           | None \<Rightarrow> Inr t0))"

text \<open>
  \<^verbatim>\<open>int(len(headers) * 0.6)\<close> is computed in floating point; for every length a table can
  have the product rounds so that its integer part is \<open>\<lfloor>6 n / 10\<rfloor>\<close>, which is what
  \<open>threshold\<close> computes on the naturals.
\<close>

definition non_empty_count :: "string list \<Rightarrow> nat" where
  "non_empty_count headers = length (filter (\<lambda>h. strip h \<noteq> []) headers)"

definition threshold :: "nat \<Rightarrow> nat" where
  "threshold n = max 1 ((n * 6) div 10)"

definition header_like :: "string list \<Rightarrow> bool" where
  "header_like headers = (threshold (length headers) \<le> non_empty_count headers)"

definition column_name :: "nat \<Rightarrow> string" where
  "column_name i = ''Column '' @ str_nat (i + 1)"

definition generic_headers :: "nat \<Rightarrow> string list" where
  "generic_headers n = map column_name [0..<n]"

fun find_photo_idx :: "nat \<Rightarrow> string list \<Rightarrow> string list \<Rightarrow> nat option" where
  "find_photo_idx i [] candidates = None"
| "find_photo_idx i (h # hs) candidates =
     (if lower (strip h) \<in> set (map lower candidates) then Some i
      else find_photo_idx (Suc i) hs candidates)"

definition PHOTO_HEADER_CANDIDATES :: "string list" where
  "PHOTO_HEADER_CANDIDATES = [''Photo'', ''Image'', ''Picture'', ''Photograph'']"

subsection \<open>Resolving the photo cell of a row\<close>

text \<open>
  \<open>truthy\<close> is the test Python applies to an optional string in \<^verbatim>\<open>if url:\<close>,
  \<^verbatim>\<open>if not public_link:\<close> and \<^verbatim>\<open>if public_link:\<close>: neither \<open>None\<close> nor the empty
  string. A tuple, as the two extractors return it, is always true.
\<close>

definition truthy :: "string option \<Rightarrow> bool" where
  "truthy x = (case x of None \<Rightarrow> False | Some s \<Rightarrow> s \<noteq> [])"

definition embedded_name_hint :: "nat \<Rightarrow> string" where
  "embedded_name_hint r_i = ''row'' @ str_nat r_i @ ''_photo''"

definition link_name_hint :: "nat \<Rightarrow> string" where
  "link_name_hint r_i = ''row'' @ str_nat r_i @ ''_photo_from_link''"

definition embedded_stage ::
  "drive \<Rightarrow> string \<Rightarrow> nat \<Rightarrow> cell \<Rightarrow> string option result \<times> drive" where
  "embedded_stage d folder_id r_i photo_cell =
     (case first_embedded_image_bytes photo_cell of
        None \<Rightarrow> (Inr None, d)
      | Some (blob, mime) \<Rightarrow>
          (case upload_image_bytes d folder_id (embedded_name_hint r_i) blob (Some mime) of
             (Inl e, d1) \<Rightarrow> (Inl e, d1)
           | (Inr link, d1) \<Rightarrow> (Inr (Some link), d1)))"

definition hyperlink_stage ::
  "web \<Rightarrow> drive \<Rightarrow> string \<Rightarrow> nat \<Rightarrow> cell \<Rightarrow> string option \<Rightarrow> string option result \<times> drive" where
  "hyperlink_stage w d folder_id r_i photo_cell public_link =
     (if \<not> truthy public_link then
        (case first_hyperlink_url photo_cell of
           None \<Rightarrow> (Inr public_link, d)
         | Some url \<Rightarrow>
             if url \<noteq> [] then
               (case download_url_bytes w url of
                  Some (blob, mime) \<Rightarrow>
                    (case upload_image_bytes d folder_id (link_name_hint r_i) blob mime of
                       (Inl e, d1) \<Rightarrow> (Inl e, d1)
                     | (Inr link, d1) \<Rightarrow> (Inr (Some link), d1))
                | None \<Rightarrow> (Inr (Some url), d))
             else (Inr public_link, d))
      else (Inr public_link, d))"

definition resolve_photo ::
  "web \<Rightarrow> drive \<Rightarrow> string \<Rightarrow> nat \<Rightarrow> cell \<Rightarrow> string option result \<times> drive" where
  "resolve_photo w d folder_id r_i photo_cell =
     (case embedded_stage d folder_id r_i photo_cell of
        (Inl e, d1) \<Rightarrow> (Inl e, d1)
      | (Inr public_link, d1) \<Rightarrow> hyperlink_stage w d1 folder_id r_i photo_cell public_link)"

definition row_values ::
  "web \<Rightarrow> drive \<Rightarrow> string \<Rightarrow> nat option \<Rightarrow> nat \<Rightarrow> cell list \<Rightarrow> string list result \<times> drive" where
  "row_values w d folder_id photo_idx r_i row =
     (let values = map cell_text row
      in case photo_idx of
           None \<Rightarrow> (Inr values, d)
         | Some p \<Rightarrow>
             if p < length row then
               (case resolve_photo w d folder_id r_i (row ! p) of
                  (Inl e, d1) \<Rightarrow> (Inl e, d1)
                | (Inr public_link, d1) \<Rightarrow>
                    (case public_link of
                       None \<Rightarrow> (Inr values, d1)
                     | Some link \<Rightarrow>
                         if link \<noteq> [] then (Inr (values[p := link]), d1)
                         else (Inr values, d1)))
             else (Inr values, d))"

subsection \<open>Packing a row and the rows of the table\<close>

type_synonym row_dict = "string \<rightharpoonup> string"

definition row_key :: "nat \<Rightarrow> string \<Rightarrow> string" where
  "row_key i h = (if h \<noteq> [] then h else column_name i)"

definition row_value :: "string list \<Rightarrow> nat \<Rightarrow> string" where
  "row_value values i = (if i < length values then values ! i else [])"

fun pack_row :: "nat \<Rightarrow> string list \<Rightarrow> string list \<Rightarrow> row_dict \<Rightarrow> row_dict" where
  "pack_row i [] values row_dict = row_dict"
| "pack_row i (h # hs) values row_dict =
     pack_row (Suc i) hs values (row_dict(row_key i h \<mapsto> row_value values i))"

fun process_rows ::
  "web \<Rightarrow> drive \<Rightarrow> string \<Rightarrow> nat option \<Rightarrow> string list \<Rightarrow> nat \<Rightarrow> cell list list
     \<Rightarrow> row_dict list result \<times> drive" where
  "process_rows w d folder_id photo_idx headers r_i [] = (Inr [], d)"
| "process_rows w d folder_id photo_idx headers r_i (row # rows) =
     (case row_values w d folder_id photo_idx r_i row of
        (Inl e, d1) \<Rightarrow> (Inl e, d1)
      | (Inr values, d1) \<Rightarrow>
          (case process_rows w d1 folder_id photo_idx headers (Suc r_i) rows of
             (Inl e, d2) \<Rightarrow> (Inl e, d2)
           | (Inr rows_out, d2) \<Rightarrow> (Inr (pack_row 0 headers values Map.empty # rows_out), d2)))"

subsection \<open>\<^verbatim>\<open>convert_docx_to_excel_with_drive\<close>\<close>

text \<open>
  The document and the authenticated service are given. The result is what the script hands
  to the spreadsheet writer: the column order and the row dictionaries.
\<close>

record sheet =
  sheet_columns :: "string list"
  sheet_rows :: "row_dict list"

definition headers_and_data :: "table \<Rightarrow> (string list \<times> cell list list) result" where
  "headers_and_data t =
     (case table_rows t of
        [] \<Rightarrow> Inl IndexError
      | first_row # rest \<Rightarrow>
          (let headers = map cell_text first_row
           in if header_like headers then Inr (headers, rest)
              else Inr (generic_headers (length first_row), first_row # rest)))"

definition convert_docx_to_excel_with_drive ::
  "document \<Rightarrow> web \<Rightarrow> drive \<Rightarrow> string \<Rightarrow> string list \<Rightarrow> sheet result \<times> drive" where
  "convert_docx_to_excel_with_drive doc w d folder_name photo_header_candidates =
     (case choose_table doc of
        Inl e \<Rightarrow> (Inl e, d)
      | Inr t \<Rightarrow>
          (case headers_and_data t of
             Inl e \<Rightarrow> (Inl e, d)
           | Inr (headers, data_rows) \<Rightarrow>
               (let photo_idx = find_photo_idx 0 headers photo_header_candidates
                in case find_or_create_folder d folder_name of
                     (Inl e, d1) \<Rightarrow> (Inl e, d1)
                   | (Inr folder_id, d1) \<Rightarrow>
                       (case process_rows w d1 folder_id photo_idx headers 1 data_rows of
                          (Inl e, d2) \<Rightarrow> (Inl e, d2)
                        | (Inr rows_out, d2) \<Rightarrow>
                            (Inr \<lparr>sheet_columns = headers, sheet_rows = rows_out\<rparr>, d2)))))"

section \<open>Vocabulary of the properties\<close>

text \<open>
  \<open>nth_fault d k\<close> is the outcome the service has in store for the \<open>k\<close>-th API call
  from state \<open>d\<close> on; \<open>outcome\<close> reads it as the result of a call that returns nothing.
  \<open>retryable\<close> is the class of errors the specification names for the permission grant:
  an HTTP error with status 403, 429, 500 or 503.
\<close>

definition nth_fault :: "drive \<Rightarrow> nat \<Rightarrow> error option" where
  "nth_fault d k = (if k < length (drive_faults d) then drive_faults d ! k else None)"

definition outcome :: "error option \<Rightarrow> unit result" where
  "outcome f = (case f of None \<Rightarrow> Inr () | Some e \<Rightarrow> Inl e)"

definition retryable :: "error \<Rightarrow> bool" where
  "retryable e =
     (case e of HttpError s \<Rightarrow> s = 403 \<or> s = 429 \<or> s = 500 \<or> s = 503 | _ \<Rightarrow> False)"

text \<open>
  \<open>str_value\<close> reads a decimal numeral back; \<open>text_cell\<close> is a cell holding one paragraph
  of text and nothing else, and \<open>uploads\<close> counts the file creations in a trace.
\<close>

definition str_value :: "string \<Rightarrow> nat" where
  "str_value s = foldl (\<lambda>a c. 10 * a + (of_char c - 48)) 0 s"

definition text_cell :: "string \<Rightarrow> cell" where
  "text_cell s =
     \<lparr>paragraphs = [s], image_rids = [], hyperlink_rids = [], instr_texts = [],
      part_rels = []\<rparr>"

fun is_upload :: "event \<Rightarrow> bool" where
  "is_upload (FilesCreate name) = True"
| "is_upload ev = False"

definition uploads :: "drive \<Rightarrow> nat" where
  "uploads d = length (filter is_upload (drive_trace d))"

text \<open>
  \<open>uploaded d fid data folder_id\<close>: the store holds a publicly readable file with
  identifier \<open>fid\<close> and content \<open>data\<close> in the folder \<open>folder_id\<close>. \<open>make_public\<close> is what
  a granted permission does to the files.
\<close>

definition uploaded :: "drive \<Rightarrow> string \<Rightarrow> bytes \<Rightarrow> string \<Rightarrow> bool" where
  "uploaded d fid data folder_id =
     (\<exists>f \<in> set (drive_files d).
        file_id f = fid \<and> file_data f = data \<and> file_parents f = [folder_id] \<and> file_public f)"

definition make_public :: "string \<Rightarrow> drive_file \<Rightarrow> drive_file" where
  "make_public fid f = (if file_id f = fid then f\<lparr>file_public := True\<rparr> else f)"

text \<open>
  The image of a cell, in the words of the docstring of \<^verbatim>\<open>first_embedded_image_bytes\<close>
  ("the first embedded image in a cell") and of the specification ("a cell that contains
  an embedded image"): the first picture of the cell whose relationship leads to a part
  with an image content type. It is the notion the properties of the resolution are
  stated with, to be compared with what the extractor of the source returns.
\<close>

fun own_image :: "(string \<times> relationship) list \<Rightarrow> string list \<Rightarrow> (bytes \<times> string) option" where
  "own_image rels [] = None"
| "own_image rels (rId # rIds) =
     (case map_of rels rId of
        Some (Internal t p) \<Rightarrow>
          (case part_content_type p of
             Some content_type \<Rightarrow>
               if startswith content_type ''image/'' then Some (part_blob p, content_type)
               else own_image rels rIds
           | None \<Rightarrow> own_image rels rIds)
      | Some (External t) \<Rightarrow> own_image rels rIds
      | None \<Rightarrow> own_image rels rIds)"

definition cell_own_image :: "cell \<Rightarrow> (bytes \<times> string) option" where
  "cell_own_image c = own_image (part_rels c) (image_rids c)"

text \<open>
  Cells and a service state for the examples. \<open>link_cell\<close> is a cell with a structural
  hyperlink to an external URL in a part that holds nothing else; \<open>doc_cell\<close> is a cell of
  a part with the given relationships, holding one paragraph, the given pictures and the
  given hyperlinks; \<open>png_part\<close> is the relationship to an embedded PNG image;
  \<open>empty_drive\<close> is a service that holds nothing and fails at nothing.
\<close>

definition link_cell :: "string \<Rightarrow> string \<Rightarrow> cell" where
  "link_cell text url =
     \<lparr>paragraphs = [text], image_rids = [], hyperlink_rids = [''rId2''], instr_texts = [],
      part_rels = [(''rId2'', External url)]\<rparr>"

definition doc_cell ::
  "(string \<times> relationship) list \<Rightarrow> string \<Rightarrow> string list \<Rightarrow> string list \<Rightarrow> cell" where
  "doc_cell rels text pictures links =
     \<lparr>paragraphs = [text], image_rids = pictures, hyperlink_rids = links, instr_texts = [],
      part_rels = rels\<rparr>"

definition png_part :: "bytes \<Rightarrow> relationship" where
  "png_part blob =
     Internal ''media/image1.png'' \<lparr>part_content_type = Some ''image/png'', part_blob = blob\<rparr>"

definition empty_drive :: drive where
  "empty_drive = \<lparr>drive_files = [], drive_next = 0, drive_faults = [], drive_trace = []\<rparr>"

section \<open>The permission grant\<close>

lemma permissions_create_result:
  "fst (permissions_create d fid) = outcome (nth_fault d 0)"
  by (cases "drive_faults d")
     (auto simp: permissions_create_def execute_def nth_fault_def outcome_def split: option.splits)

lemma permissions_create_trace:
  "drive_trace (snd (permissions_create d fid)) = drive_trace d @ [PermissionsCreate fid]"
  by (cases "drive_faults d")
     (auto simp: permissions_create_def execute_def split: option.splits)

lemma permissions_create_faults:
  "drive_faults (snd (permissions_create d fid)) = tl (drive_faults d)"
  by (cases "drive_faults d")
     (auto simp: permissions_create_def execute_def split: option.splits)

lemma nth_fault_tl:
  "drive_faults d' = tl (drive_faults d) \<Longrightarrow> nth_fault d' k = nth_fault d (Suc k)"
  by (cases "drive_faults d") (auto simp: nth_fault_def)

text \<open>
  C6. The permission grant calls the service once. If that call raises an HTTP error with
  status 403, 429, 500 or 503, it sleeps 2 seconds and calls once more, and the outcome of
  that second call is the outcome of the grant (so a failure of the retry propagates). Any
  other error of the first call is the outcome at once, with no sleep and no second call.
  The trace shows one call, or call, sleep, call: never more.
\<close>

theorem set_public_retry_once:
  "fst (set_public_anyone_reader d fid) =
     (case nth_fault d 0 of
        None \<Rightarrow> Inr ()
      | Some e \<Rightarrow> if retryable e then outcome (nth_fault d 1) else Inl e)
   \<and> drive_trace (snd (set_public_anyone_reader d fid)) =
     drive_trace d @
       (case nth_fault d 0 of
          None \<Rightarrow> [PermissionsCreate fid]
        | Some e \<Rightarrow>
            if retryable e then [PermissionsCreate fid, Sleep 2, PermissionsCreate fid]
            else [PermissionsCreate fid])"
proof -
  obtain r d1 where p: "permissions_create d fid = (r, d1)"
    by (cases "permissions_create d fid")
  have r: "r = outcome (nth_fault d 0)"
    using permissions_create_result[of d fid] p by simp
  have t: "drive_trace d1 = drive_trace d @ [PermissionsCreate fid]"
    using permissions_create_trace[of d fid] p by simp
  have f: "drive_faults d1 = tl (drive_faults d)"
    using permissions_create_faults[of d fid] p by simp
  have f2: "nth_fault (sleep 2 d1) 0 = nth_fault d 1"
    using nth_fault_tl[of "sleep 2 d1" d 0] f by (simp add: sleep_def)
  have t2: "drive_trace (sleep 2 d1) = drive_trace d @ [PermissionsCreate fid, Sleep 2]"
    using t by (simp add: sleep_def)
  show ?thesis
  proof (cases "nth_fault d 0")
    case None
    then show ?thesis
      using p r t by (simp add: set_public_anyone_reader_def outcome_def)
  next
    case (Some e)
    then have r': "r = Inl e"
      using r by (simp add: outcome_def)
    show ?thesis
    proof (cases "retryable e")
      case True
      then obtain s where e: "e = HttpError s" and s: "s \<in> set retry_statuses"
        by (auto simp: retryable_def retry_statuses_def split: error.splits)
      show ?thesis
        using Some True p r' e s f2 t2
          permissions_create_result[of "sleep 2 d1" fid]
          permissions_create_trace[of "sleep 2 d1" fid]
        by (simp add: set_public_anyone_reader_def)
    next
      case False
      then show ?thesis
        using Some p r' t
        by (auto simp: set_public_anyone_reader_def retryable_def retry_statuses_def
            split: error.splits)
    qed
  qed
qed

theorem set_public_retry_once_witness:
  "fst (set_public_anyone_reader
          \<lparr>drive_files = [], drive_next = 0,
           drive_faults = [Some (HttpError 429), Some (HttpError 404)], drive_trace = []\<rparr> ''7'')
     = Inl (HttpError 404)
   \<and> drive_trace (snd (set_public_anyone_reader
          \<lparr>drive_files = [], drive_next = 0,
           drive_faults = [Some (HttpError 429), Some (HttpError 404)], drive_trace = []\<rparr> ''7''))
     = [PermissionsCreate ''7'', Sleep 2, PermissionsCreate ''7'']"
  using set_public_retry_once
    [of "\<lparr>drive_files = [], drive_next = 0,
          drive_faults = [Some (HttpError 429), Some (HttpError 404)], drive_trace = []\<rparr>" "''7''"]
  by (simp add: nth_fault_def retryable_def outcome_def)

section \<open>Folder resolution\<close>

lemma execute_eq:
  "execute ev d =
     (nth_fault d 0, d\<lparr>drive_faults := tl (drive_faults d), drive_trace := drive_trace d @ [ev]\<rparr>)"
  by (cases "drive_faults d") (auto simp: execute_def nth_fault_def)

lemma files_list_ok:
  assumes "nth_fault d 0 = None"
  shows "files_list d q n =
           (Inr (take n (filter (query_matches q) (drive_files d))),
            d\<lparr>drive_faults := tl (drive_faults d), drive_trace := drive_trace d @ [FilesList q]\<rparr>)"
  using assms by (simp add: files_list_def execute_eq)

lemma create_folder_cases:
  "create_folder d name = (Inr fid, d') \<Longrightarrow>
     fid = str_nat (drive_next d) \<and>
     drive_files d' = drive_files d @
       [\<lparr>file_id = fid, file_name = name, file_mime = folder_mime, file_parents = [],
         file_trashed = False, file_public = False, file_data = []\<rparr>]"
  by (auto simp: create_folder_def files_create_def execute_eq Let_def split: option.splits)

lemma new_folder_matches:
  "query_matches (folder_query name)
     \<lparr>file_id = fid, file_name = name, file_mime = folder_mime, file_parents = [],
      file_trashed = False, file_public = False, file_data = []\<rparr>"
  by (simp add: query_matches_def)

text \<open>
  C8, as amended. When the listing query succeeds in both invocations, a second
  find-or-create with the same name returns the identifier the first returned and creates
  nothing: the files of the store are unchanged and the only call made is the listing.
\<close>

theorem find_or_create_folder_idempotent:
  assumes first: "find_or_create_folder d name = (Inr id1, d1)"
    and list1: "nth_fault d 0 = None"
    and list2: "nth_fault d1 0 = None"
  shows "fst (find_or_create_folder d1 name) = Inr id1 \<and>
         drive_files (snd (find_or_create_folder d1 name)) = drive_files d1 \<and>
         drive_trace (snd (find_or_create_folder d1 name)) =
           drive_trace d1 @ [FilesList (folder_query name)]"
proof -
  let ?q = "folder_query name"
  let ?d' = "d\<lparr>drive_faults := tl (drive_faults d), drive_trace := drive_trace d @ [FilesList ?q]\<rparr>"
  let ?found = "filter (query_matches ?q) (drive_files d)"
  have l1: "files_list d ?q 10 = (Inr (take 10 ?found), ?d')"
    using files_list_ok[OF list1] .
  have l2: "files_list d1 ?q 10 =
              (Inr (take 10 (filter (query_matches ?q) (drive_files d1))),
               d1\<lparr>drive_faults := tl (drive_faults d1), drive_trace := drive_trace d1 @ [FilesList ?q]\<rparr>)"
    using files_list_ok[OF list2] .
  show ?thesis
  proof (cases ?found)
    case Nil
    then have "create_folder ?d' name = (Inr id1, d1)"
      using first l1 by (simp add: find_or_create_folder_def)
    from create_folder_cases[OF this]
    have files1: "drive_files d1 = drive_files d @
       [\<lparr>file_id = id1, file_name = name, file_mime = folder_mime, file_parents = [],
         file_trashed = False, file_public = False, file_data = []\<rparr>]"
      by simp
    have "filter (query_matches ?q) (drive_files d1) =
       [\<lparr>file_id = id1, file_name = name, file_mime = folder_mime, file_parents = [],
         file_trashed = False, file_public = False, file_data = []\<rparr>]"
      using Nil files1 new_folder_matches[of name id1] by simp
    then show ?thesis
      using l2 by (simp add: find_or_create_folder_def)
  next
    case (Cons f rest)
    then have "id1 = file_id f" and "d1 = ?d'"
      using first l1 by (simp_all add: find_or_create_folder_def)
    then have "filter (query_matches ?q) (drive_files d1) = f # rest"
      using Cons by simp
    then show ?thesis
      using l2 \<open>id1 = file_id f\<close> by (simp add: find_or_create_folder_def)
  qed
qed

text \<open>
  C8, as stated, fails: a listing that raises is swallowed and the folder is created. With
  an empty store whose third call (the second listing) answers 503, the two invocations
  return the identifiers 0 and 1 and leave two folders of the same name.
\<close>

theorem find_or_create_folder_counterexample:
  "fst (find_or_create_folder
          \<lparr>drive_files = [], drive_next = 0,
           drive_faults = [None, None, Some (HttpError 503)], drive_trace = []\<rparr> ''Up'')
     = Inr ''0''
   \<and> fst (find_or_create_folder (snd (find_or_create_folder
          \<lparr>drive_files = [], drive_next = 0,
           drive_faults = [None, None, Some (HttpError 503)], drive_trace = []\<rparr> ''Up'')) ''Up'')
     = Inr ''1''
   \<and> map file_name (drive_files (snd (find_or_create_folder (snd (find_or_create_folder
          \<lparr>drive_files = [], drive_next = 0,
           drive_faults = [None, None, Some (HttpError 503)], drive_trace = []\<rparr> ''Up'')) ''Up'')))
     = [''Up'', ''Up'']"
  by code_simp

theorem find_or_create_folder_idempotent_witness:
  "fst (find_or_create_folder
          \<lparr>drive_files = [], drive_next = 0, drive_faults = [None], drive_trace = []\<rparr> ''Up'')
     = Inr ''0''
   \<and> fst (find_or_create_folder (snd (find_or_create_folder
          \<lparr>drive_files = [], drive_next = 0, drive_faults = [None], drive_trace = []\<rparr> ''Up'')) ''Up'')
     = Inr ''0''
   \<and> map file_id (drive_files (snd (find_or_create_folder (snd (find_or_create_folder
          \<lparr>drive_files = [], drive_next = 0, drive_faults = [None], drive_trace = []\<rparr> ''Up'')) ''Up'')))
     = [''0'']"
proof -
  let ?d = "\<lparr>drive_files = [], drive_next = 0, drive_faults = [None], drive_trace = []\<rparr>"
  let ?d1 = "snd (find_or_create_folder ?d ''Up'')"
  have a: "fst (find_or_create_folder ?d ''Up'') = Inr ''0''" by code_simp
  then have 1: "find_or_create_folder ?d ''Up'' = (Inr ''0'', ?d1)"
    by (metis prod.collapse)
  have 2: "nth_fault ?d 0 = None" by code_simp
  have 3: "nth_fault ?d1 0 = None" by code_simp
  have 4: "map file_id (drive_files ?d1) = [''0'']" by code_simp
  note r = find_or_create_folder_idempotent[OF 1 2 3]
  have b: "fst (find_or_create_folder ?d1 ''Up'') = Inr ''0''"
    using r by (rule conjunct1)
  have c: "drive_files (snd (find_or_create_folder ?d1 ''Up'')) = drive_files ?d1"
    using r by blast
  have c': "map file_id (drive_files (snd (find_or_create_folder ?d1 ''Up''))) = [''0'']"
    by (simp only: c 4)
  show ?thesis
    by (intro conjI a b c')
qed

section \<open>The remote fetcher, as a function of what the web answers\<close>

text \<open>
  C7, as amended. The fetcher asks with a timeout of 20 and returns no data when there is
  no reply, when the reply takes longer than 20, or when its status is from 400 to 599; in
  every other case it returns the body and the media type of the reply, whatever the
  status. Its result is an optional value: nothing is raised to the caller.
\<close>

theorem download_url_bytes_outcomes:
  "download_url_bytes w url =
     (case map_of w url of
        None \<Rightarrow> None
      | Some (Reply delay status body ctype) \<Rightarrow>
          if 20 < delay \<or> (400 \<le> status \<and> status < 600) then None
          else Some (body, ctype))"
  by (auto simp: download_url_bytes_def requests_get_def raise_for_status_def
      split: option.splits http_reply.splits)

text \<open>
  C7, as stated, fails for a status that is neither 2xx nor an error status: a reply with
  status 300 is returned as data.
\<close>

theorem download_url_bytes_counterexample:
  "\<not> (200 \<le> (300::nat) \<and> (300::nat) < 300) \<and>
   download_url_bytes
     [(''http://example.org/a.png'', Reply 1 300 ''choices'' (Some ''text/html''))]
     ''http://example.org/a.png'' = Some (''choices'', Some ''text/html'')"
  by code_simp

section \<open>Facts about strings\<close>




lemma str_value_str_nat: "str_value (str_nat n) = n"
proof (induction n rule: str_nat.induct)
  case (1 n)
  show ?case
  proof (cases "n < 10")
    case True
    then show ?thesis
      by (subst str_nat.simps) (simp add: str_value_def digit_char_def)
  next
    case False
    have d: "(of_char (digit_char (n mod 10)) :: nat) - 48 = n mod 10"
      by (simp add: digit_char_def)
    have "str_value (str_nat n) = 10 * str_value (str_nat (n div 10)) + n mod 10"
      using False d by (subst str_nat.simps) (simp add: str_value_def)
    then show ?thesis using 1 False by simp
  qed
qed

lemma str_nat_inj: "str_nat m = str_nat n \<Longrightarrow> m = n"
  by (metis str_value_str_nat)

lemma column_name_inj: "column_name i = column_name j \<Longrightarrow> i = j"
  using str_nat_inj by (fastforce simp: column_name_def)

lemma column_name_nonempty: "column_name i \<noteq> []"
  by (simp add: column_name_def)

section \<open>Header detection\<close>




section \<open>Uploading\<close>

lemma permissions_create_ok:
  "permissions_create d fid = (Inr u, d') \<Longrightarrow>
     drive_files d' = map (make_public fid) (drive_files d) \<and> uploads d' = uploads d"
  by (auto simp: permissions_create_def execute_eq uploads_def make_public_def
      split: option.splits)

lemma permissions_create_uploads:
  "uploads (snd (permissions_create d fid)) = uploads d"
  by (auto simp: permissions_create_def execute_eq uploads_def split: option.splits)

lemma permissions_create_err_files:
  "permissions_create d fid = (Inl e, d') \<Longrightarrow> drive_files d' = drive_files d"
  by (auto simp: permissions_create_def execute_eq split: option.splits)

lemma set_public_ok:
  assumes "set_public_anyone_reader d fid = (Inr u, d')"
  shows "drive_files d' = map (make_public fid) (drive_files d) \<and> uploads d' = uploads d"
proof -
  obtain r d1 where p: "permissions_create d fid = (r, d1)"
    by (cases "permissions_create d fid")
  show ?thesis
  proof (cases r)
    case (Inr v)
    then show ?thesis
      using assms p permissions_create_ok[of d fid v d1]
      by (simp add: set_public_anyone_reader_def)
  next
    case (Inl e)
    then have files1: "drive_files d1 = drive_files d"
      using p permissions_create_err_files by blast
    have up1: "uploads d1 = uploads d"
      using p permissions_create_uploads[of d fid] by simp
    from Inl assms p obtain s where e: "e = HttpError s" and s: "s \<in> set retry_statuses"
      and retry: "permissions_create (sleep 2 d1) fid = (Inr u, d')"
      by (auto simp: set_public_anyone_reader_def split: error.splits if_splits)
    have "drive_files (sleep 2 d1) = drive_files d" "uploads (sleep 2 d1) = uploads d"
      using files1 up1 by (simp_all add: sleep_def uploads_def)
    then show ?thesis
      using permissions_create_ok[OF retry] by simp
  qed
qed

lemma set_public_uploads:
  "uploads (snd (set_public_anyone_reader d fid)) = uploads d"
proof -
  obtain r d1 where p: "permissions_create d fid = (r, d1)"
    by (cases "permissions_create d fid")
  have up1: "uploads d1 = uploads d"
    using p permissions_create_uploads[of d fid] by simp
  have "uploads (sleep 2 d1) = uploads d"
    using up1 by (simp add: sleep_def uploads_def)
  then have "uploads (snd (permissions_create (sleep 2 d1) fid)) = uploads d"
    using permissions_create_uploads[of "sleep 2 d1" fid] by simp
  then show ?thesis
    using p up1
    by (auto simp: set_public_anyone_reader_def split: sum.splits error.splits)
qed

lemma files_create_uploads:
  "uploads (snd (files_create d name mime parents data)) = uploads d + 1"
  by (auto simp: files_create_def execute_eq uploads_def Let_def split: option.splits)

lemma files_create_ok:
  "files_create d name mime parents data = (Inr fid, d') \<Longrightarrow>
     fid = str_nat (drive_next d) \<and>
     drive_files d' = drive_files d @
       [\<lparr>file_id = fid, file_name = name, file_mime = mime, file_parents = parents,
         file_trashed = False, file_public = False, file_data = data\<rparr>]"
  by (auto simp: files_create_def execute_eq Let_def split: option.splits)

lemma upload_image_bytes_uploads:
  "uploads (snd (upload_image_bytes d folder_id name_hint data mime)) = uploads d + 1"
proof -
  obtain r d1 where c: "files_create d name_hint (mime_or_default mime) [folder_id] data = (r, d1)"
    by (cases "files_create d name_hint (mime_or_default mime) [folder_id] data")
  have up1: "uploads d1 = uploads d + 1"
    using c files_create_uploads[of d name_hint "mime_or_default mime" "[folder_id]" data] by simp
  show ?thesis
  proof (cases r)
    case (Inl e)
    then show ?thesis using c up1 by (simp add: upload_image_bytes_def)
  next
    case (Inr fid)
    obtain r2 d2 where s: "set_public_anyone_reader d1 fid = (r2, d2)"
      by (cases "set_public_anyone_reader d1 fid")
    have "uploads d2 = uploads d + 1"
      using s set_public_uploads[of d1 fid] up1 by simp
    then show ?thesis
      using Inr c s by (cases r2) (simp_all add: upload_image_bytes_def)
  qed
qed

lemma upload_image_bytes_ok:
  assumes "upload_image_bytes d folder_id name_hint data mime = (Inr link, d')"
  shows "link = public_view_url (str_nat (drive_next d)) \<and>
         uploaded d' (str_nat (drive_next d)) data folder_id"
proof -
  from assms obtain fid d1 u where
    c: "files_create d name_hint (mime_or_default mime) [folder_id] data = (Inr fid, d1)"
    and s: "set_public_anyone_reader d1 fid = (Inr u, d')"
    and l: "link = public_view_url fid"
    by (auto simp: upload_image_bytes_def split: prod.splits sum.splits)
  from files_create_ok[OF c] have fid: "fid = str_nat (drive_next d)"
    and files1: "drive_files d1 = drive_files d @
       [\<lparr>file_id = fid, file_name = name_hint, file_mime = mime_or_default mime,
         file_parents = [folder_id], file_trashed = False, file_public = False,
         file_data = data\<rparr>]"
    by simp_all
  from set_public_ok[OF s] have "drive_files d' = map (make_public fid) (drive_files d1)"
    by simp
  then have "uploaded d' fid data folder_id"
    using files1 by (auto simp: uploaded_def make_public_def)
  then show ?thesis using l fid by simp
qed

section \<open>Resolving the photo cell\<close>

lemma public_view_url_nonempty: "public_view_url fid \<noteq> []"
  by (simp add: public_view_url_def view_prefix_def)

lemma upload_link_nonempty:
  "upload_image_bytes d folder_id name_hint data mime = (Inr link, d') \<Longrightarrow> link \<noteq> []"
  using upload_image_bytes_ok public_view_url_nonempty by metis

lemma resolve_photo_embedded:
  assumes "first_embedded_image_bytes c = Some (blob, mime)"
  shows "resolve_photo w d folder_id r_i c =
     (case upload_image_bytes d folder_id (embedded_name_hint r_i) blob (Some mime) of
        (Inl e, d1) \<Rightarrow> (Inl e, d1)
      | (Inr link, d1) \<Rightarrow> (Inr (Some link), d1))"
proof -
  obtain r d1 where u: "upload_image_bytes d folder_id (embedded_name_hint r_i) blob (Some mime) = (r, d1)"
    by (cases "upload_image_bytes d folder_id (embedded_name_hint r_i) blob (Some mime)")
  show ?thesis
  proof (cases r)
    case (Inl e)
    then show ?thesis using assms u by (simp add: resolve_photo_def embedded_stage_def)
  next
    case (Inr link)
    then have "link \<noteq> []" using u upload_link_nonempty by blast
    then show ?thesis
      using assms u Inr
      by (simp add: resolve_photo_def embedded_stage_def hyperlink_stage_def truthy_def)
  qed
qed

lemma resolve_photo_link_fetched:
  assumes "first_embedded_image_bytes c = None" "first_hyperlink_url c = Some url" "url \<noteq> []"
    "download_url_bytes w url = Some (blob, mime)"
  shows "resolve_photo w d folder_id r_i c =
     (case upload_image_bytes d folder_id (link_name_hint r_i) blob mime of
        (Inl e, d1) \<Rightarrow> (Inl e, d1)
      | (Inr link, d1) \<Rightarrow> (Inr (Some link), d1))"
  using assms
  by (simp add: resolve_photo_def embedded_stage_def hyperlink_stage_def truthy_def)

lemma resolve_photo_link_unreachable:
  assumes "first_embedded_image_bytes c = None" "first_hyperlink_url c = Some url" "url \<noteq> []"
    "download_url_bytes w url = None"
  shows "resolve_photo w d folder_id r_i c = (Inr (Some url), d)"
  using assms
  by (simp add: resolve_photo_def embedded_stage_def hyperlink_stage_def truthy_def)

lemma resolve_photo_nothing:
  assumes "first_embedded_image_bytes c = None" "\<not> truthy (first_hyperlink_url c)"
  shows "resolve_photo w d folder_id r_i c = (Inr None, d)"
  using assms
  by (auto simp: resolve_photo_def embedded_stage_def hyperlink_stage_def truthy_def
      split: option.splits)

lemma row_values_upload:
  assumes "p < length row"
    and "resolve_photo w d folder_id r_i (row ! p) =
     (case upload_image_bytes d folder_id name_hint blob mime of
        (Inl e, d1) \<Rightarrow> (Inl e, d1)
      | (Inr link, d1) \<Rightarrow> (Inr (Some link), d1))"
  shows "row_values w d folder_id (Some p) r_i row =
     (case upload_image_bytes d folder_id name_hint blob mime of
        (Inl e, d1) \<Rightarrow> (Inl e, d1)
      | (Inr link, d1) \<Rightarrow> (Inr ((map cell_text row)[p := link]), d1))"
proof -
  obtain r d1 where u: "upload_image_bytes d folder_id name_hint blob mime = (r, d1)"
    by (cases "upload_image_bytes d folder_id name_hint blob mime")
  show ?thesis
  proof (cases r)
    case (Inl e)
    then show ?thesis using assms u by (simp add: row_values_def)
  next
    case (Inr link)
    then have "link \<noteq> []" using u upload_link_nonempty by blast
    then show ?thesis using assms u Inr by (simp add: row_values_def)
  qed
qed

lemma row_values_upload_ok:
  assumes "row_values w d folder_id (Some p) r_i row =
     (case upload_image_bytes d folder_id name_hint blob mime of
        (Inl e, d1) \<Rightarrow> (Inl e, d1)
      | (Inr link, d1) \<Rightarrow> (Inr ((map cell_text row)[p := link]), d1))"
    and "row_values w d folder_id (Some p) r_i row = (Inr values, d')"
  shows "values = (map cell_text row)[p := public_view_url (str_nat (drive_next d))] \<and>
         uploaded d' (str_nat (drive_next d)) blob folder_id"
proof -
  obtain r d1 where u: "upload_image_bytes d folder_id name_hint blob mime = (r, d1)"
    by (cases "upload_image_bytes d folder_id name_hint blob mime")
  then obtain link where r: "r = Inr link" and v: "values = (map cell_text row)[p := link]"
    and d: "d' = d1"
    using assms by (cases r) auto
  from upload_image_bytes_ok[OF u[unfolded r]] show ?thesis using v d by simp
qed

text \<open>
  The fallback chain, relative to what the two extractors and the fetcher return for the
  photo cell. An image from the extractor is uploaded and the hyperlink is not looked at;
  without one, a non-empty hyperlink URL is fetched and the fetched bytes are uploaded, or
  the URL is kept when the fetch returns no data; without either the texts stay as they
  are. An upload error is the error of the row.
\<close>

lemma chain_embedded:
  assumes "p < length row"
    and "first_embedded_image_bytes (row ! p) = Some (blob, mime)"
  shows "row_values w d folder_id (Some p) r_i row =
           (case upload_image_bytes d folder_id (embedded_name_hint r_i) blob (Some mime) of
              (Inl e, d1) \<Rightarrow> (Inl e, d1)
            | (Inr link, d1) \<Rightarrow> (Inr ((map cell_text row)[p := link]), d1))"
  using assms(1) resolve_photo_embedded[OF assms(2)] by (rule row_values_upload)

lemma chain_link_fetched:
  assumes "p < length row"
    and "first_embedded_image_bytes (row ! p) = None"
    and "first_hyperlink_url (row ! p) = Some url" and "url \<noteq> []"
    and "download_url_bytes w url = Some (blob, mime)"
  shows "row_values w d folder_id (Some p) r_i row =
           (case upload_image_bytes d folder_id (link_name_hint r_i) blob mime of
              (Inl e, d1) \<Rightarrow> (Inl e, d1)
            | (Inr link, d1) \<Rightarrow> (Inr ((map cell_text row)[p := link]), d1))"
  using assms(1) resolve_photo_link_fetched[OF assms(2-5)] by (rule row_values_upload)

lemma chain_link_unreachable:
  assumes "p < length row"
    and "first_embedded_image_bytes (row ! p) = None"
    and "first_hyperlink_url (row ! p) = Some url" and "url \<noteq> []"
    and "download_url_bytes w url = None"
  shows "row_values w d folder_id (Some p) r_i row = (Inr ((map cell_text row)[p := url]), d)"
  using assms(1,4) resolve_photo_link_unreachable[OF assms(2-5)]
  by (simp add: row_values_def)

lemma chain_nothing:
  assumes "p < length row"
    and "first_embedded_image_bytes (row ! p) = None"
    and "\<not> truthy (first_hyperlink_url (row ! p))"
  shows "row_values w d folder_id (Some p) r_i row = (Inr (map cell_text row), d)"
  using assms(1) resolve_photo_nothing[OF assms(2,3)]
  by (simp add: row_values_def)

section \<open>The extractors on examples\<close>

lemma cell_text_example:
  "cell_text
     \<lparr>paragraphs = [''  Ann '', '' B. Lee  ''], image_rids = [], hyperlink_rids = [],
      instr_texts = [], part_rels = []\<rparr>
     = ''Ann'' @ newline @ ''B. Lee''"
  by code_simp

lemma first_hyperlink_url_field_code_example:
  "first_hyperlink_url
     \<lparr>paragraphs = [''link''], image_rids = [], hyperlink_rids = [],
      instr_texts =
        [None, Some ''PAGE'',
         Some ('' HYPERLINK  '' @ [quote_char] @ ''http://example.org/b.png'' @ [quote_char]
               @ '' '' @ [quote_char] @ ''tip'' @ [quote_char])],
      part_rels = []\<rparr>
     = Some ''http://example.org/b.png''"
  by code_simp

lemma first_hyperlink_url_internal_example:
  "first_hyperlink_url
     (doc_cell [(''rId1'', png_part ''LOGO''), (''rId2'', External ''http://example.org/a.png'')]
        ''see'' [] [''rId1'', ''rId9'', ''rId2''])
     = Some ''http://example.org/a.png''"
  by code_simp

section \<open>The extractor and the image of the cell\<close>

text \<open>
  \<^verbatim>\<open>first_embedded_image_bytes\<close> walks the relationships of the whole document part and
  never looks at the pictures of the cell it is given: its result is the same for every
  cell of the document.
\<close>

lemma first_embedded_image_bytes_ignores_cell:
  "part_rels c' = part_rels c \<Longrightarrow>
     first_embedded_image_bytes c' = first_embedded_image_bytes c"
  by (simp add: first_embedded_image_bytes_def)

lemma first_embedded_image_bytes_of_other_cell:
  "cell_own_image
     (doc_cell [(''rId1'', png_part ''LOGO''), (''rId2'', png_part ''FACE'')] ''see'' [''rId2''] [])
     = Some (''FACE'', ''image/png'')
   \<and> first_embedded_image_bytes
     (doc_cell [(''rId1'', png_part ''LOGO''), (''rId2'', png_part ''FACE'')] ''see'' [''rId2''] [])
     = Some (''LOGO'', ''image/png'')"
  by code_simp

text \<open>
  C1 fails on the code. The photo cell holds an embedded PNG image and a hyperlink; in the
  relationships of the part the hyperlink comes before the image. The extractor stops at
  the external relationship and reports no image, so the row resolves to the hyperlink
  (here unreachable, hence its URL as text) and nothing is uploaded.
\<close>

theorem embedded_image_lost_behind_hyperlink:
  "cell_own_image
     (doc_cell [(''rId1'', External ''http://unreachable.example/a.png''),
                (''rId2'', png_part ''FACE'')] ''see'' [''rId2''] [''rId1''])
     = Some (''FACE'', ''image/png'')
   \<and> first_embedded_image_bytes
     (doc_cell [(''rId1'', External ''http://unreachable.example/a.png''),
                (''rId2'', png_part ''FACE'')] ''see'' [''rId2''] [''rId1''])
     = None
   \<and> row_values [] empty_drive ''F'' (Some 1) 1
       [doc_cell [(''rId1'', External ''http://unreachable.example/a.png''),
                  (''rId2'', png_part ''FACE'')] ''Ann'' [] [],
        doc_cell [(''rId1'', External ''http://unreachable.example/a.png''),
                  (''rId2'', png_part ''FACE'')] ''see'' [''rId2''] [''rId1'']]
     = (Inr [''Ann'', ''http://unreachable.example/a.png''], empty_drive)"
  by code_simp

text \<open>
  C2 fails on the code. The photo cell holds no image and a hyperlink whose fetch
  succeeds; the part holds an image that belongs elsewhere (a logo) before the hyperlink.
  The extractor returns the logo, so the row uploads the logo under the name of an
  embedded photo, and the resolved value is the view URL of that file: the fetched bytes
  are never uploaded.
\<close>

theorem reachable_link_replaced_by_part_image:
  "cell_own_image
     (doc_cell [(''rId1'', png_part ''LOGO''), (''rId2'', External ''http://example.org/a.png'')]
        ''see'' [] [''rId2''])
     = None
   \<and> first_hyperlink_url
     (doc_cell [(''rId1'', png_part ''LOGO''), (''rId2'', External ''http://example.org/a.png'')]
        ''see'' [] [''rId2''])
     = Some ''http://example.org/a.png''
   \<and> download_url_bytes
       [(''http://example.org/a.png'', Reply 1 200 ''JPG'' (Some ''image/jpeg''))]
       ''http://example.org/a.png''
     = Some (''JPG'', Some ''image/jpeg'')
   \<and> fst (row_values
            [(''http://example.org/a.png'', Reply 1 200 ''JPG'' (Some ''image/jpeg''))]
            empty_drive ''F'' (Some 1) 1
            [doc_cell [(''rId1'', png_part ''LOGO''),
                       (''rId2'', External ''http://example.org/a.png'')] ''Ann'' [] [],
             doc_cell [(''rId1'', png_part ''LOGO''),
                       (''rId2'', External ''http://example.org/a.png'')] ''see'' [] [''rId2'']])
     = Inr [''Ann'', ''https://drive.google.com/uc?export=view&id=0'']
   \<and> map file_data (drive_files (snd (row_values
            [(''http://example.org/a.png'', Reply 1 200 ''JPG'' (Some ''image/jpeg''))]
            empty_drive ''F'' (Some 1) 1
            [doc_cell [(''rId1'', png_part ''LOGO''),
                       (''rId2'', External ''http://example.org/a.png'')] ''Ann'' [] [],
             doc_cell [(''rId1'', png_part ''LOGO''),
                       (''rId2'', External ''http://example.org/a.png'')] ''see'' [] [''rId2'']])))
     = [''LOGO'']
   \<and> map file_name (drive_files (snd (row_values
            [(''http://example.org/a.png'', Reply 1 200 ''JPG'' (Some ''image/jpeg''))]
            empty_drive ''F'' (Some 1) 1
            [doc_cell [(''rId1'', png_part ''LOGO''),
                       (''rId2'', External ''http://example.org/a.png'')] ''Ann'' [] [],
             doc_cell [(''rId1'', png_part ''LOGO''),
                       (''rId2'', External ''http://example.org/a.png'')] ''see'' [] [''rId2'']])))
     = [''row1_photo'']"
  by code_simp

text \<open>
  C3 fails on the code. The photo cell holds no image and a hyperlink whose fetch fails;
  the part holds a logo before the hyperlink. The extractor returns the logo, so the row
  makes an upload and the resolved value is the view URL of the uploaded logo, not the
  URL of the hyperlink.
\<close>

theorem unreachable_link_replaced_by_part_image:
  "cell_own_image
     (doc_cell [(''rId1'', png_part ''LOGO''),
                (''rId2'', External ''http://unreachable.example/a.png'')] ''see'' [] [''rId2''])
     = None
   \<and> first_hyperlink_url
     (doc_cell [(''rId1'', png_part ''LOGO''),
                (''rId2'', External ''http://unreachable.example/a.png'')] ''see'' [] [''rId2''])
     = Some ''http://unreachable.example/a.png''
   \<and> download_url_bytes [] ''http://unreachable.example/a.png'' = None
   \<and> fst (row_values [] empty_drive ''F'' (Some 1) 1
            [doc_cell [(''rId1'', png_part ''LOGO''),
                       (''rId2'', External ''http://unreachable.example/a.png'')] ''Ann'' [] [],
             doc_cell [(''rId1'', png_part ''LOGO''),
                       (''rId2'', External ''http://unreachable.example/a.png'')]
               ''see'' [] [''rId2'']])
     = Inr [''Ann'', ''https://drive.google.com/uc?export=view&id=0'']
   \<and> uploads (snd (row_values [] empty_drive ''F'' (Some 1) 1
            [doc_cell [(''rId1'', png_part ''LOGO''),
                       (''rId2'', External ''http://unreachable.example/a.png'')] ''Ann'' [] [],
             doc_cell [(''rId1'', png_part ''LOGO''),
                       (''rId2'', External ''http://unreachable.example/a.png'')]
               ''see'' [] [''rId2'']]))
     = 1"
  by code_simp

text \<open>
  C4 fails on the code. The photo cell holds text only, neither image nor hyperlink; the
  part holds a logo. The extractor returns the logo, so the row makes an upload and the
  text of the cell is replaced by the view URL of the uploaded logo.
\<close>

theorem text_replaced_by_part_image:
  "cell_own_image (doc_cell [(''rId1'', png_part ''LOGO'')] ''no photo'' [] []) = None
   \<and> first_hyperlink_url (doc_cell [(''rId1'', png_part ''LOGO'')] ''no photo'' [] []) = None
   \<and> cell_text (doc_cell [(''rId1'', png_part ''LOGO'')] ''no photo'' [] []) = ''no photo''
   \<and> fst (row_values [] empty_drive ''F'' (Some 1) 1
            [doc_cell [(''rId1'', png_part ''LOGO'')] ''Ann'' [] [],
             doc_cell [(''rId1'', png_part ''LOGO'')] ''no photo'' [] []])
     = Inr [''Ann'', ''https://drive.google.com/uc?export=view&id=0'']
   \<and> uploads (snd (row_values [] empty_drive ''F'' (Some 1) 1
            [doc_cell [(''rId1'', png_part ''LOGO'')] ''Ann'' [] [],
             doc_cell [(''rId1'', png_part ''LOGO'')] ''no photo'' [] []]))
     = 1"
  by code_simp

section \<open>Rows: the values kept and the dictionary packed\<close>

lemma row_key_nonempty: "row_key i h \<noteq> []"
  by (simp add: row_key_def column_name_nonempty)

lemma pack_row_miss:
  "(\<And>j. j < length hs \<Longrightarrow> row_key (i + j) (hs ! j) \<noteq> k) \<Longrightarrow>
     pack_row i hs vals m k = m k"
proof (induction hs arbitrary: i m)
  case Nil
  then show ?case by simp
next
  case (Cons h hs)
  have "row_key i h \<noteq> k" using Cons.prems[of 0] by simp
  moreover have "pack_row (Suc i) hs vals (m(row_key i h \<mapsto> row_value vals i)) k
      = (m(row_key i h \<mapsto> row_value vals i)) k"
  proof (rule Cons.IH)
    fix j assume "j < length hs"
    then show "row_key (Suc i + j) (hs ! j) \<noteq> k" using Cons.prems[of "Suc j"] by simp
  qed
  ultimately show ?case by simp
qed

lemma pack_row_last:
  "j < length hs \<Longrightarrow>
   (\<And>j'. j < j' \<Longrightarrow> j' < length hs \<Longrightarrow> row_key (i + j') (hs ! j') \<noteq> row_key (i + j) (hs ! j)) \<Longrightarrow>
     pack_row i hs vals m (row_key (i + j) (hs ! j)) = Some (row_value vals (i + j))"
proof (induction hs arbitrary: i j m)
  case Nil
  then show ?case by simp
next
  case (Cons h hs)
  show ?case
  proof (cases j)
    case 0
    have "pack_row (Suc i) hs vals (m(row_key i h \<mapsto> row_value vals i)) (row_key i h)
        = (m(row_key i h \<mapsto> row_value vals i)) (row_key i h)"
    proof (rule pack_row_miss)
      fix j' assume "j' < length hs"
      then show "row_key (Suc i + j') (hs ! j') \<noteq> row_key i h"
        using Cons.prems(2)[of "Suc j'"] 0 by simp
    qed
    then show ?thesis using 0 by simp
  next
    case (Suc j0)
    have "pack_row (Suc i) hs vals (m(row_key i h \<mapsto> row_value vals i))
            (row_key (Suc i + j0) (hs ! j0)) = Some (row_value vals (Suc i + j0))"
    proof (rule Cons.IH)
      show "j0 < length hs" using Cons.prems(1) Suc by simp
    next
      fix j' assume "j0 < j'" "j' < length hs"
      then show "row_key (Suc i + j') (hs ! j') \<noteq> row_key (Suc i + j0) (hs ! j0)"
        using Cons.prems(2)[of "Suc j'"] Suc by simp
    qed
    then show ?thesis using Suc by simp
  qed
qed

lemma pack_row_no_empty_key: "pack_row i hs vals Map.empty [] = None"
  using pack_row_miss[of hs i "[]" vals Map.empty] row_key_nonempty by simp

lemma hyperlink_stage_uploads:
  "uploads (snd (hyperlink_stage w d folder_id r_i c public_link)) \<le> uploads d + 1"
proof -
  have "uploads (snd (case upload_image_bytes d folder_id (link_name_hint r_i) blob mime of
                        (Inl e, d1) \<Rightarrow> (Inl e, d1)
                      | (Inr link, d1) \<Rightarrow> (Inr (Some link), d1))) = uploads d + 1"
    for blob mime
    using upload_image_bytes_uploads[of d folder_id "link_name_hint r_i" blob mime]
    by (auto split: prod.splits sum.splits)
  then show ?thesis
    by (auto simp: hyperlink_stage_def split: option.splits)
qed

lemma hyperlink_stage_truthy:
  "truthy public_link \<Longrightarrow>
     hyperlink_stage w d folder_id r_i c public_link = (Inr public_link, d)"
  by (simp add: hyperlink_stage_def)

lemma resolve_photo_uploads:
  "uploads (snd (resolve_photo w d folder_id r_i c)) \<le> uploads d + 1"
proof (cases "first_embedded_image_bytes c")
  case None
  then show ?thesis
    using hyperlink_stage_uploads[of w d folder_id r_i c None]
    by (simp add: resolve_photo_def embedded_stage_def)
next
  case (Some im)
  obtain blob mime where im: "im = (blob, mime)" by (cases im)
  have "uploads (snd (case upload_image_bytes d folder_id (embedded_name_hint r_i) blob (Some mime) of
                        (Inl e, d1) \<Rightarrow> (Inl e, d1)
                      | (Inr link, d1) \<Rightarrow> (Inr (Some link), d1))) = uploads d + 1"
    using upload_image_bytes_uploads[of d folder_id "embedded_name_hint r_i" blob "Some mime"]
    by (auto split: prod.splits sum.splits)
  then show ?thesis
    using resolve_photo_embedded[of c blob mime w d folder_id r_i] Some im by simp
qed

lemma row_values_frame:
  assumes "row_values w d folder_id photo_idx r_i row = (Inr vals, d')"
  shows "length vals = length row"
    and "\<And>i. i < length row \<Longrightarrow> photo_idx \<noteq> Some i \<Longrightarrow> vals ! i = cell_text (row ! i)"
  using assms
  by (auto simp: row_values_def Let_def split: option.splits if_splits prod.splits sum.splits)

lemma row_values_uploads:
  "uploads (snd (row_values w d folder_id photo_idx r_i row)) \<le> uploads d + 1"
proof (cases photo_idx)
  case None
  then show ?thesis by (simp add: row_values_def)
next
  case (Some p)
  show ?thesis
  proof (cases "p < length row")
    case True
    then show ?thesis
      using Some resolve_photo_uploads[of w d folder_id r_i "row ! p"]
      by (auto simp: row_values_def Let_def split: prod.splits sum.splits option.splits)
  next
    case False
    then show ?thesis using Some by (simp add: row_values_def)
  qed
qed

text \<open>
  C9, as amended. For every data row that is processed, the list of values has one value
  per cell and, outside the photo position, each value is the text of its cell; the row
  dictionary packed from it maps the key of a non-photo column to the text of that
  column's cell whenever no later column has the same key; and the row makes at most one
  upload, so the photo value is replaced at most once.
\<close>

theorem non_photo_values_kept:
  assumes "row_values w d folder_id photo_idx r_i row = (Inr vals, d')"
  shows "length vals = length row
       \<and> (\<forall>i<length row. photo_idx \<noteq> Some i \<longrightarrow> vals ! i = cell_text (row ! i))
       \<and> (\<forall>i<length headers.
            i < length row \<and> photo_idx \<noteq> Some i \<and>
            (\<forall>j<length headers. i < j \<longrightarrow> row_key j (headers ! j) \<noteq> row_key i (headers ! i))
            \<longrightarrow> pack_row 0 headers vals Map.empty (row_key i (headers ! i))
                  = Some (cell_text (row ! i)))
       \<and> uploads d' \<le> uploads d + 1"
proof -
  note frame = row_values_frame[OF assms]
  have packed: "pack_row 0 headers vals Map.empty (row_key i (headers ! i))
                  = Some (cell_text (row ! i))"
    if "i < length headers" "i < length row" "photo_idx \<noteq> Some i"
      "\<forall>j<length headers. i < j \<longrightarrow> row_key j (headers ! j) \<noteq> row_key i (headers ! i)" for i
  proof -
    have "pack_row 0 headers vals Map.empty (row_key (0 + i) (headers ! i))
            = Some (row_value vals (0 + i))"
      using that(1,4) by (intro pack_row_last) auto
    then show ?thesis
      using that(2,3) frame by (simp add: row_value_def)
  qed
  have "uploads d' \<le> uploads d + 1"
    using row_values_uploads[of w d folder_id photo_idx r_i row] assms by simp
  then show ?thesis
    using frame packed by blast
qed

text \<open>
  C9, as stated, fails when two columns carry the same header: the row dictionary is keyed
  by header, so the later cell overwrites the earlier one. With the headers
  \<open>Name, Photo, Name\<close> and the cells \<open>a, p, b\<close>, the value under \<open>Name\<close> is \<open>b\<close>,
  not the text \<open>a\<close> of the first cell.
\<close>

theorem non_photo_values_kept_counterexample:
  "cell_text (text_cell ''a'') = ''a''
   \<and> (case fst (convert_docx_to_excel_with_drive
                  [\<lparr>n_columns = 3,
                    table_rows = [[text_cell ''Name'', text_cell ''Photo'', text_cell ''Name''],
                                  [text_cell ''a'', text_cell ''p'', text_cell ''b'']]\<rparr>]
                  [] empty_drive ''DOCX Image Uploads'' PHOTO_HEADER_CANDIDATES) of
         Inl e \<Rightarrow> False
       | Inr sh \<Rightarrow>
           sheet_columns sh = [''Name'', ''Photo'', ''Name''] \<and>
           length (sheet_rows sh) = 1 \<and>
           (sheet_rows sh ! 0) ''Name'' = Some ''b'')"
  by code_simp

theorem non_photo_values_kept_witness:
  "pack_row 0 [''Name'', ''Photo'', ''Notes''] [''Ann'', ''http://unreachable.example/a.png'', ''ok'']
     Map.empty ''Notes'' = Some ''ok''"
proof -
  let ?c = "link_cell ''see'' ''http://unreachable.example/a.png''"
  let ?row = "[text_cell ''Ann'', ?c, text_cell ''ok'']"
  let ?vals = "[''Ann'', ''http://unreachable.example/a.png'', ''ok'']"
  let ?hs = "[''Name'', ''Photo'', ''Notes'']"
  have h: "row_values [] empty_drive ''F'' (Some 1) 1 ?row = (Inr ?vals, empty_drive)"
    by code_simp
  note th = non_photo_values_kept[OF h, of ?hs]
  then have all: "\<forall>i<length ?hs.
            i < length ?row \<and> Some 1 \<noteq> Some i \<and>
            (\<forall>j<length ?hs. i < j \<longrightarrow> row_key j (?hs ! j) \<noteq> row_key i (?hs ! i))
            \<longrightarrow> pack_row 0 ?hs ?vals Map.empty (row_key i (?hs ! i))
                  = Some (cell_text (?row ! i))"
    by blast
  have lt: "2 < length ?hs" by simp
  have prem: "2 < length ?row \<and> Some (1::nat) \<noteq> Some 2 \<and>
            (\<forall>j<length ?hs. 2 < j \<longrightarrow> row_key j (?hs ! j) \<noteq> row_key 2 (?hs ! 2))"
    by auto
  have "pack_row 0 ?hs ?vals Map.empty (row_key 2 (?hs ! 2))
                  = Some (cell_text (?row ! 2))"
    using all[rule_format, OF lt prem] .
  moreover have "row_key 2 (?hs ! 2) = ''Notes''" by code_simp
  moreover have "cell_text (?row ! 2) = ''ok''" by code_simp
  ultimately show ?thesis by (simp only:)
qed

section \<open>Empty headers\<close>

lemma process_rows_nth:
  "process_rows w d folder_id photo_idx headers r_i rows = (Inr out, d') \<Longrightarrow>
     length out = length rows \<and>
     (\<forall>k<length rows. \<exists>vals dk dk'.
        row_values w dk folder_id photo_idx (r_i + k) (rows ! k) = (Inr vals, dk') \<and>
        out ! k = pack_row 0 headers vals Map.empty)"
proof (induction rows arbitrary: d r_i out)
  case Nil
  then show ?case by simp
next
  case (Cons row rows)
  from Cons.prems obtain vals d1 out' where
    rv: "row_values w d folder_id photo_idx r_i row = (Inr vals, d1)"
    and rest: "process_rows w d1 folder_id photo_idx headers (Suc r_i) rows = (Inr out', d')"
    and out: "out = pack_row 0 headers vals Map.empty # out'"
    by (auto split: prod.splits sum.splits)
  note ih = Cons.IH[OF rest]
  have "\<exists>vals dk dk'.
        row_values w dk folder_id photo_idx (r_i + k) ((row # rows) ! k) = (Inr vals, dk') \<and>
        out ! k = pack_row 0 headers vals Map.empty" if "k < length (row # rows)" for k
  proof (cases k)
    case 0
    then show ?thesis using rv out by auto
  next
    case (Suc k0)
    then have "k0 < length rows" using that by simp
    then obtain vals' dk dk' where
      "row_values w dk folder_id photo_idx (Suc r_i + k0) (rows ! k0) = (Inr vals', dk')"
      "out' ! k0 = pack_row 0 headers vals' Map.empty"
      using ih by blast
    then show ?thesis using Suc out by auto
  qed
  then show ?case using ih out by simp
qed

lemma convert_header_like:
  assumes "convert_docx_to_excel_with_drive doc w d folder_name candidates = (Inr sh, d')"
    and "choose_table doc = Inr t" and "table_rows t = first_row # rest"
    and "header_like (map cell_text first_row)"
  shows "sheet_columns sh = map cell_text first_row \<and>
         (\<exists>d1 folder_id.
            process_rows w d1 folder_id
              (find_photo_idx 0 (map cell_text first_row) candidates)
              (map cell_text first_row) 1 rest = (Inr (sheet_rows sh), d'))"
proof -
  have hd: "headers_and_data t = Inr (map cell_text first_row, rest)"
    using assms(3,4) by (simp add: headers_and_data_def)
  show ?thesis
    using assms(1,2) hd
    by (fastforce simp: convert_docx_to_excel_with_drive_def Let_def
        split: prod.splits sum.splits)
qed

text \<open>
  C10, as amended. When the first row is header-like and its header at index \<open>i\<close> is
  empty, the column order handed to the spreadsheet writer still has the empty name at
  index \<open>i\<close>, while no row dictionary has an entry under the empty name: the writer
  finds no value for that column. The row dictionary of every data row holds the value of
  the cell at index \<open>i\<close> (the empty string when the row has no such cell) under the
  synthesized key \<open>Column i+1\<close>, provided \<open>i\<close> is not the photo column and no later header
  is literally \<open>Column i+1\<close>.
\<close>

theorem empty_header_value_misfiled:
  assumes conv: "convert_docx_to_excel_with_drive doc w d folder_name candidates = (Inr sh, d')"
    and tab: "choose_table doc = Inr t" and rows: "table_rows t = first_row # rest"
    and hl: "header_like (map cell_text first_row)"
    and i: "i < length first_row" and empty: "cell_text (first_row ! i) = []"
    and k: "k < length rest"
    and no_photo: "find_photo_idx 0 (map cell_text first_row) candidates \<noteq> Some i"
    and later: "\<forall>j<length first_row. i < j \<longrightarrow> cell_text (first_row ! j) \<noteq> column_name i"
  shows "sheet_columns sh ! i = []
       \<and> (sheet_rows sh ! k) (column_name i) = Some (row_value (map cell_text (rest ! k)) i)
       \<and> (sheet_rows sh ! k) [] = None
       \<and> (sheet_rows sh ! k) (sheet_columns sh ! i) = None"
proof -
  let ?hs = "map cell_text first_row"
  let ?pidx = "find_photo_idx 0 ?hs candidates"
  from convert_header_like[OF conv tab rows hl] obtain d1 folder_id where
    cols: "sheet_columns sh = ?hs"
    and pr: "process_rows w d1 folder_id ?pidx ?hs 1 rest = (Inr (sheet_rows sh), d')"
    by blast
  from process_rows_nth[OF pr] k obtain vals dk dk' where
    rv: "row_values w dk folder_id ?pidx (1 + k) (rest ! k) = (Inr vals, dk')"
    and packed: "sheet_rows sh ! k = pack_row 0 ?hs vals Map.empty"
    by blast
  have col_i: "sheet_columns sh ! i = []"
    using cols i empty by simp
  have key_i: "row_key i (?hs ! i) = column_name i"
    using i empty by (simp add: row_key_def)
  have distinct_later: "row_key (0 + j) (?hs ! j) \<noteq> row_key (0 + i) (?hs ! i)"
    if "i < j" "j < length ?hs" for j
  proof (cases "?hs ! j = []")
    case True
    then have "row_key j (?hs ! j) = column_name j" by (simp add: row_key_def)
    then show ?thesis using key_i that(1) column_name_inj[of j i] by auto
  next
    case False
    then have "row_key j (?hs ! j) = cell_text (first_row ! j)"
      using that(2) by (simp add: row_key_def)
    then show ?thesis using key_i later that by auto
  qed
  have "pack_row 0 ?hs vals Map.empty (row_key (0 + i) (?hs ! i)) = Some (row_value vals (0 + i))"
    using i distinct_later by (intro pack_row_last) auto
  then have stored: "(sheet_rows sh ! k) (column_name i) = Some (row_value vals i)"
    using packed key_i by simp
  have "row_value vals i = row_value (map cell_text (rest ! k)) i"
    using row_values_frame[OF rv] no_photo by (simp add: row_value_def)
  then have stored_text: "(sheet_rows sh ! k) (column_name i)
      = Some (row_value (map cell_text (rest ! k)) i)"
    using stored by simp
  have none: "(sheet_rows sh ! k) [] = None"
    using packed pack_row_no_empty_key by simp
  show ?thesis
    using col_i stored_text none by simp
qed

text \<open>
  C10, as stated, fails when a later header is literally the synthesized key: with the
  headers \<open>''\<close> and \<open>Column 1\<close> and the cells \<open>a\<close> and \<open>b\<close>, the key \<open>Column 1\<close> is
  written twice and the row dictionary holds \<open>b\<close> under it, not the value \<open>a\<close> of the
  cell under the empty header.
\<close>

theorem empty_header_value_misfiled_counterexample:
  "header_like (map cell_text [text_cell '''', text_cell ''Column 1''])
   \<and> (case fst (convert_docx_to_excel_with_drive
                  [\<lparr>n_columns = 2,
                    table_rows = [[text_cell '''', text_cell ''Column 1''],
                                  [text_cell ''a'', text_cell ''b'']]\<rparr>]
                  [] empty_drive ''DOCX Image Uploads'' PHOTO_HEADER_CANDIDATES) of
         Inl e \<Rightarrow> False
       | Inr sh \<Rightarrow>
           sheet_columns sh = ['''', ''Column 1''] \<and>
           length (sheet_rows sh) = 1 \<and>
           (sheet_rows sh ! 0) ''Column 1'' = Some ''b'')"
  by code_simp

theorem empty_header_value_misfiled_witness:
  "(case fst (convert_docx_to_excel_with_drive
                  [\<lparr>n_columns = 3,
                    table_rows = [[text_cell ''Name'', text_cell [], text_cell ''Photo''],
                                  [text_cell ''Ann'', text_cell ''x'', text_cell ''p'']]\<rparr>]
                  [] empty_drive ''DOCX Image Uploads'' PHOTO_HEADER_CANDIDATES) of
         Inl e \<Rightarrow> False
       | Inr sh \<Rightarrow>
           sheet_columns sh ! 1 = [] \<and>
           (sheet_rows sh ! 0) ''Column 2'' = Some ''x'' \<and>
           (sheet_rows sh ! 0) [] = None)"
proof -
  let ?fr = "[text_cell ''Name'', text_cell [], text_cell ''Photo'']"
  let ?rest = "[[text_cell ''Ann'', text_cell ''x'', text_cell ''p'']]"
  let ?t = "\<lparr>n_columns = 3, table_rows = ?fr # ?rest\<rparr>"
  let ?r = "convert_docx_to_excel_with_drive [?t] [] empty_drive ''DOCX Image Uploads''
              PHOTO_HEADER_CANDIDATES"
  have "case fst ?r of Inl e \<Rightarrow> False | Inr sh \<Rightarrow> True" by code_simp
  then obtain sh where sh: "fst ?r = Inr sh" by (cases "fst ?r") auto
  then have conv: "?r = (Inr sh, snd ?r)" by (metis prod.collapse)
  have tab: "choose_table [?t] = Inr ?t" by code_simp
  have rows: "table_rows ?t = ?fr # ?rest" by simp
  have hl: "header_like (map cell_text ?fr)" by code_simp
  have i: "1 < length ?fr" by simp
  have empty: "cell_text (?fr ! 1) = []" by code_simp
  have k: "0 < length ?rest" by simp
  have no_photo: "find_photo_idx 0 (map cell_text ?fr) PHOTO_HEADER_CANDIDATES \<noteq> Some 1"
    by code_simp
  have c2: "cell_text (?fr ! 2) \<noteq> column_name 1" by code_simp
  have later: "\<forall>j<length ?fr. 1 < j \<longrightarrow> cell_text (?fr ! j) \<noteq> column_name 1"
  proof (intro allI impI)
    fix j assume "j < length ?fr" "1 < j"
    then have "j = 2" by simp
    then show "cell_text (?fr ! j) \<noteq> column_name 1" using c2 by blast
  qed
  note th = empty_header_value_misfiled[OF conv tab rows hl i empty k no_photo later]
  have key2: "column_name 1 = ''Column 2''" by code_simp
  have val_x: "row_value (map cell_text (?rest ! 0)) 1 = ''x''" by code_simp
  have "sheet_columns sh ! 1 = [] \<and>
        (sheet_rows sh ! 0) ''Column 2'' = Some ''x'' \<and>
        (sheet_rows sh ! 0) [] = None"
    using th by (simp only: key2 val_x)
  then show ?thesis by (simp only: sh sum.case)
qed

end
